theory Spec2Isabelle
  imports Complex_Main "HOL-Library.Multiset"
begin

section \<open>Data model\<close>

text \<open>
  The notebook is Python 2 on top of urllib2, BeautifulSoup and pandas. Every exception
  the modelled code can raise is a value of \<open>error\<close>; a computation that may raise
  returns \<open>error + 'a\<close> with \<open>Inl\<close> for the exception.
\<close>

datatype error =
    IndexError | ValueError | KeyError | TypeError | AttributeError | OverflowError
  | URLError

text \<open>A table row is the list of the stripped texts of its cells.\<close>

type_synonym row = "string list"

section \<open>Row classifier and cleaner (\<open>parse_results_table\<close>)\<close>

text \<open>
  \<^verbatim>\<open>header = [row for row in raw_data if len(row) == 9][0]\<close>:
  indexing the filtered list at 0 raises IndexError when it is empty.
\<close>

definition find_header :: "row list \<Rightarrow> error + row" where
  "find_header raw_data =
     (case [row \<leftarrow> raw_data. length row = 9] of
        [] \<Rightarrow> Inl IndexError
      | header # _ \<Rightarrow> Inr header)"

text \<open>
  \<^verbatim>\<open>
  cleaned_data = []
  for row in raw_data:
      if row <> header and len(row) == 9:
          cleaned_data.append(row)
  \<close>
  The loop, with the accumulator \<open>cleaned_data\<close> passed along. \<open><>\<close> on two Python
  lists is the negation of element-wise equality, which is HOL's \<open>\<noteq>\<close> on lists.
\<close>

fun clean_loop :: "row \<Rightarrow> row list \<Rightarrow> row list \<Rightarrow> row list" where
  "clean_loop header [] cleaned_data = cleaned_data"
| "clean_loop header (row # raw_data) cleaned_data =
     (if row \<noteq> header \<and> length row = 9
      then clean_loop header raw_data (cleaned_data @ [row])
      else clean_loop header raw_data cleaned_data)"

text \<open>The part of \<open>parse_results_table\<close> between the extraction and the frame.\<close>

definition clean_rows :: "row list \<Rightarrow> error + (row \<times> row list)" where
  "clean_rows raw_data =
     (case find_header raw_data of
        Inl e \<Rightarrow> Inl e
      | Inr header \<Rightarrow> Inr (header, clean_loop header raw_data []))"

text \<open>The first four rows of the 2015 page, as the notebook prints them.\<close>

definition title_row :: row where
  "title_row = [''Women's Race'']"

definition header_row :: row where
  "header_row = [''Place'', ''Name'', ''Team'', ''Bib No'', ''Age'', ''Gender'',
                 ''Age Group'', ''Total Time'', ''Pace'']"

definition alexandra_row :: row where
  "alexandra_row = [''1'', ''Alexandra Sciocchetti'', ''UNATTACHED'', ''189'', ''20'', ''F'',
                    ''1/48 13-39'', ''20:20'', ''5:55/M'']"

definition tamma_row :: row where
  "tamma_row = [''2'', ''Tamma Carleton'', ''Strawberry Canyon TC'', ''114'', ''27'', ''F'',
                ''2/48 13-39'', ''20:23'', ''5:56/M'']"

definition sample_rows :: "row list" where
  "sample_rows = [title_row, header_row, alexandra_row, tamma_row]"

section \<open>Time normalizer: \<open>convert_date_string_to_datetime\<close>\<close>

text \<open>
  \<^verbatim>\<open>
  def convert_date_string_to_datetime(time_string):
      t=datetime.strptime(time_string, "%M:%S")
      delta = timedelta(minutes=t.minute, seconds=t.second)
      return delta
  \<close>
  \<open>strptime\<close> is Python's: it turns the format into a regular expression, \<open>%M\<close> into
  \<^verbatim>\<open>(?P<M>[0-5]\d|\d)\<close> and \<open>%S\<close> into \<^verbatim>\<open>(?P<S>6[0-1]|[0-5]\d|\d)\<close>,
  matches it at the start of the string, raises ValueError when it does not match or when
  the match does not reach the end of the string, and builds
  \<open>datetime(1900, 1, 1, 0, minute, second)\<close>, whose constructor raises ValueError for a
  second above 59.
\<close>

definition is_digit :: "char \<Rightarrow> bool" where
  "is_digit c = (c \<in> set ''0123456789'')"

definition digit_val :: "char \<Rightarrow> nat" where
  "digit_val c = of_char c - 48"

text \<open>The value of a string of decimal digits (Python's \<open>int\<close> on a regex group).\<close>

definition decimal :: "string \<Rightarrow> nat" where
  "decimal ds = foldl (\<lambda>n c. 10 * n + digit_val c) 0 ds"

text \<open>
  Each matcher returns, in the order in which the backtracking matcher tries them, the
  ways its sub-pattern matches a prefix of the string: the matched text's value and the
  rest of the string.
\<close>

definition match_M :: "string \<Rightarrow> (nat \<times> string) list" where
  "match_M s =
     (case s of
        a # b # rest \<Rightarrow> if a \<in> set ''012345'' \<and> is_digit b then [(decimal [a, b], rest)] else []
      | _ \<Rightarrow> [])
     @ (case s of a # rest \<Rightarrow> if is_digit a then [(decimal [a], rest)] else [] | [] \<Rightarrow> [])"

definition match_colon :: "string \<Rightarrow> string list" where
  "match_colon s = (case s of c # rest \<Rightarrow> if c = CHR '':'' then [rest] else [] | [] \<Rightarrow> [])"

definition match_S :: "string \<Rightarrow> (nat \<times> string) list" where
  "match_S s =
     (case s of
        a # b # rest \<Rightarrow> if a = CHR ''6'' \<and> b \<in> set ''01'' then [(decimal [a, b], rest)] else []
      | _ \<Rightarrow> [])
     @ (case s of
        a # b # rest \<Rightarrow> if a \<in> set ''012345'' \<and> is_digit b then [(decimal [a, b], rest)] else []
      | _ \<Rightarrow> [])
     @ (case s of a # rest \<Rightarrow> if is_digit a then [(decimal [a], rest)] else [] | [] \<Rightarrow> [])"

text \<open>\<open>re.match\<close>: the first way the whole pattern matches, if any.\<close>

definition format_regex_match :: "string \<Rightarrow> (nat \<times> nat \<times> string) option" where
  "format_regex_match s =
     (case [(m, sec, r3). (m, r1) \<leftarrow> match_M s, r2 \<leftarrow> match_colon r1, (sec, r3) \<leftarrow> match_S r2] of
        [] \<Rightarrow> None
      | found # _ \<Rightarrow> Some found)"

record datetime =
  year :: nat
  month :: nat
  day :: nat
  hour :: nat
  minute :: nat
  second :: nat

definition strptime :: "string \<Rightarrow> error + datetime" where
  "strptime data_string =
     (case format_regex_match data_string of
        None \<Rightarrow> Inl ValueError
      | Some (m, sec, rest) \<Rightarrow>
          if rest \<noteq> [] then Inl ValueError
          else if 59 < sec then Inl ValueError
          else Inr \<lparr>year = 1900, month = 1, day = 1, hour = 0, minute = m, second = sec\<rparr>)"

text \<open>
  A \<open>timedelta\<close> is normalised on construction to days, seconds (0 to 86399) and
  microseconds.
\<close>

record timedelta =
  days :: int
  seconds :: int
  microseconds :: int

definition timedelta_of :: "nat \<Rightarrow> nat \<Rightarrow> timedelta" where
  "timedelta_of minutes secs =
     \<lparr>days = (int minutes * 60 + int secs) div 86400,
      seconds = (int minutes * 60 + int secs) mod 86400,
      microseconds = 0\<rparr>"

definition convert_date_string_to_datetime :: "string \<Rightarrow> error + timedelta" where
  "convert_date_string_to_datetime time_string =
     (case strptime time_string of
        Inl e \<Rightarrow> Inl e
      | Inr t \<Rightarrow> Inr (timedelta_of (minute t) (second t)))"

text \<open>
  The strings the format accepts, in words: a part of one or two decimal digits whose
  value is at most 59 (minutes), a colon, and another such part (seconds).
\<close>

definition sixty_part :: "string \<Rightarrow> bool" where
  "sixty_part ds = ((length ds = 1 \<or> length ds = 2) \<and> list_all is_digit ds \<and> decimal ds \<le> 59)"

text \<open>Three more rows of the two pages, read off the frame the notebook prints at its end.\<close>

definition isaac_row :: row where
  "isaac_row = [''1'', ''Isaac Chavez'', ''Aggies Running Club'', ''414'', ''24'', ''M'',
                ''1/52 16-99'', ''16:51'', ''4:54/M'']"

definition malcolm_row :: row where
  "malcolm_row = [''2'', ''Malcolm Richards'', ''West Valley Track Club'', ''306'', ''32'', ''M'',
                  ''2/52 16-99'', ''16:56'', ''4:56/M'']"

definition trevor_row :: row where
  "trevor_row = [''1'', ''Trevor Halsted'', ''UNATTACHED'', ''701'', ''23'', ''M'',
                 ''1 16-99'', ''16:56'', ''4:56/M'']"



section \<open>Frames and the per-year loop\<close>

text \<open>
  A cell of a frame holds a text, an integer, a float or a duration. A float is
  represented by the rational number it denotes.
\<close>

datatype val = StrV string | IntV int | FloatV rat | TimedeltaV timedelta

text \<open>
  A pandas frame is modelled by its column labels and the sequence of its rows, each row
  being a Record: the list of its labelled cells, in column order. A label a Record
  lacks stands for a missing value (NaN). The row index is not modelled; the order of
  the rows is the order of the list.
\<close>

type_synonym Record = "(string \<times> val) list"

record frame =
  columns :: "string list"
  rows :: "Record list"

definition empty_frame :: frame where
  "empty_frame = \<lparr>columns = [], rows = []\<rparr>"

text \<open>
  \<^verbatim>\<open>pd.DataFrame(data = cleaned_data, columns = header)\<close>. It is only called with rows
  as long as the header.
\<close>

definition DataFrame :: "row list \<Rightarrow> row \<Rightarrow> frame" where
  "DataFrame data cols = \<lparr>columns = cols, rows = map (\<lambda>r. zip cols (map StrV r)) data\<rparr>"

text \<open>
  \<open>fetch_rows\<close> stands for the first four statements of \<open>parse_results_table\<close>: the
  download with urllib2, the parse with BeautifulSoup, the lookup of the table and the
  nested comprehension that yields \<open>raw_data\<close>. They are library calls on the network
  and on HTML, so they are a parameter, which may raise.
\<close>

definition parse_results_table :: "(string \<Rightarrow> error + row list) \<Rightarrow> string \<Rightarrow> error + frame" where
  "parse_results_table fetch_rows url =
     (case fetch_rows url of
        Inl e \<Rightarrow> Inl e
      | Inr raw_data \<Rightarrow>
          (case clean_rows raw_data of
             Inl e \<Rightarrow> Inl e
           | Inr (header, cleaned_data) \<Rightarrow> Inr (DataFrame cleaned_data header)))"

text \<open>\<open>str\<close> on an integer, and the URL of a year: \<^verbatim>\<open>'...eo{}.html'.format(str(y)[2:])\<close>.\<close>

fun str_nat :: "nat \<Rightarrow> string" where
  "str_nat n =
     (if n < 10 then [char_of (48 + n)] else str_nat (n div 10) @ [char_of (48 + n mod 10)])"

declare str_nat.simps [simp del]

definition str_int :: "int \<Rightarrow> string" where
  "str_int i = (if i < 0 then CHR ''-'' # str_nat (nat (- i)) else str_nat (nat i))"

definition url_of :: "int \<Rightarrow> string" where
  "url_of y = ''http://www.empirerunners.com/results/empireopen/eo'' @ drop 2 (str_int y)
              @ ''.html''"

text \<open>
  \<^verbatim>\<open>d['Year'] = year\<close>: an existing column of that label is overwritten, otherwise
  the column is added at the end.
\<close>

definition set_col :: "string \<Rightarrow> val \<Rightarrow> Record \<Rightarrow> Record" where
  "set_col label v r =
     (if label \<in> fst ` set r
      then map (\<lambda>(k, x). if k = label then (k, v) else (k, x)) r
      else r @ [(label, v)])"

definition add_label :: "string \<Rightarrow> string list \<Rightarrow> string list" where
  "add_label label cols = (if label \<in> set cols then cols else cols @ [label])"

definition setitem :: "frame \<Rightarrow> string \<Rightarrow> val \<Rightarrow> frame" where
  "setitem df label v =
     \<lparr>columns = add_label label (columns df), rows = map (set_col label v) (rows df)\<rparr>"

text \<open>The same assignment with one value per row.\<close>

definition setitem_values :: "frame \<Rightarrow> string \<Rightarrow> val list \<Rightarrow> frame" where
  "setitem_values df label vs =
     \<lparr>columns = add_label label (columns df),
      rows = map (\<lambda>(r, v). set_col label v r) (zip (rows df) vs)\<rparr>"

text \<open>
  \<^verbatim>\<open>df.append(d)\<close>: the rows of \<open>d\<close> after the rows of \<open>df\<close>; the labels are united.
\<close>

definition append_frame :: "frame \<Rightarrow> frame \<Rightarrow> frame" where
  "append_frame df other =
     \<lparr>columns = columns df @ [c \<leftarrow> columns other. c \<notin> set (columns df)],
      rows = rows df @ rows other\<rparr>"

text \<open>
  \<^verbatim>\<open>
  df = pd.DataFrame()
  for year, url in zip(years, urls):
      d = parse_results_table(url)
      d['Year']=year
      df = df.append(d)
  \<close>
\<close>

fun build_loop :: "(string \<Rightarrow> error + row list) \<Rightarrow> (int \<times> string) list \<Rightarrow> frame \<Rightarrow> error + frame" where
  "build_loop fetch_rows [] df = Inr df"
| "build_loop fetch_rows ((yr, url) # rest) df =
     (case parse_results_table fetch_rows url of
        Inl e \<Rightarrow> Inl e
      | Inr d \<Rightarrow> build_loop fetch_rows rest (append_frame df (setitem d ''Year'' (IntV yr))))"

definition build :: "(string \<Rightarrow> error + row list) \<Rightarrow> int list \<Rightarrow> error + frame" where
  "build fetch_rows years = build_loop fetch_rows (zip years (map url_of years)) empty_frame"

section \<open>Floats\<close>

text \<open>
  The division \<^verbatim>\<open>df['Time'].dt.seconds/60\<close> is a division of 64-bit IEEE floats, which
  returns the float nearest to the exact quotient, ties to the even significand.
  \<open>float64 q\<close> is that nearest float, for a rational \<open>q\<close> within the range of the
  finite floats (infinities are not modelled; the quotients here are below 1440).
\<close>

fun bit_length :: "nat \<Rightarrow> nat" where
  "bit_length n = (if n = 0 then 0 else Suc (bit_length (n div 2)))"

declare bit_length.simps [simp del]

definition pow2 :: "int \<Rightarrow> rat" where
  "pow2 k = (if 0 \<le> k then 2 ^ nat k else 1 / 2 ^ nat (- k))"

text \<open>For \<open>q > 0\<close>, the integer \<open>e\<close> with \<open>2 ^ e \<le> q < 2 ^ (e + 1)\<close>.\<close>

definition floor_log2 :: "rat \<Rightarrow> int" where
  "floor_log2 q =
     (if 1 \<le> q then int (bit_length (nat \<lfloor>q\<rfloor>)) - 1
      else - int (bit_length (nat (\<lceil>1 / q\<rceil> - 1))))"

definition round_half_even :: "rat \<Rightarrow> int" where
  "round_half_even x =
     (let n = \<lfloor>x\<rfloor>; f = x - of_int n
      in if f < 1 / 2 then n else if 1 / 2 < f then n + 1
         else if even n then n else n + 1)"

definition float64 :: "rat \<Rightarrow> rat" where
  "float64 q =
     (if q = 0 then 0
      else let e = max (floor_log2 \<bar>q\<bar>) (- 1022); ulp = pow2 (e - 52)
           in sgn q * of_int (round_half_even (\<bar>q\<bar> / ulp)) * ulp)"

section \<open>Time normalizer: the derived columns and the integer columns\<close>

text \<open>Applying a function that may raise to each row in turn: the first exception ends it.\<close>

fun collect :: "('a \<Rightarrow> error + 'b) \<Rightarrow> 'a list \<Rightarrow> error + 'b list" where
  "collect f [] = Inr []"
| "collect f (x # xs) =
     (case f x of
        Inl e \<Rightarrow> Inl e
      | Inr y \<Rightarrow> (case collect f xs of Inl e \<Rightarrow> Inl e | Inr ys \<Rightarrow> Inr (y # ys)))"

text \<open>
  \<^verbatim>\<open>df['Time']= df['Total Time'].apply(convert_date_string_to_datetime)\<close>.
  Reading a column the frame lacks raises KeyError; \<open>strptime\<close> on a value that is not a
  text raises TypeError.
\<close>

definition time_of_cell :: "val option \<Rightarrow> error + val" where
  "time_of_cell c =
     (case c of
        Some (StrV s) \<Rightarrow>
          (case convert_date_string_to_datetime s of
             Inl e \<Rightarrow> Inl e
           | Inr d \<Rightarrow> Inr (TimedeltaV d))
      | _ \<Rightarrow> Inl TypeError)"

definition add_time :: "frame \<Rightarrow> error + frame" where
  "add_time df =
     (if ''Total Time'' \<notin> set (columns df) then Inl KeyError
      else case collect (\<lambda>r. time_of_cell (map_of r ''Total Time'')) (rows df) of
             Inl e \<Rightarrow> Inl e
           | Inr ts \<Rightarrow> Inr (setitem_values df ''Time'' ts))"

text \<open>
  \<^verbatim>\<open>df['Minutes'] = df['Time'].dt.seconds/60\<close>. \<open>.dt.seconds\<close> is the seconds
  component of each duration. The \<open>.dt\<close> accessor raises AttributeError on a column that
  does not hold durations, which is the case of a frame without rows.
\<close>

definition minutes_of_cell :: "val option \<Rightarrow> error + val" where
  "minutes_of_cell c =
     (case c of
        Some (TimedeltaV d) \<Rightarrow> Inr (FloatV (float64 (of_int (seconds d) / 60)))
      | _ \<Rightarrow> Inl AttributeError)"

definition add_minutes :: "frame \<Rightarrow> error + frame" where
  "add_minutes df =
     (if ''Time'' \<notin> set (columns df) then Inl KeyError
      else if rows df = [] then Inl AttributeError
      else case collect (\<lambda>r. minutes_of_cell (map_of r ''Time'')) (rows df) of
             Inl e \<Rightarrow> Inl e
           | Inr ms \<Rightarrow> Inr (setitem_values df ''Minutes'' ms))"

text \<open>
  \<^verbatim>\<open>df[['Place' ,'Age', 'Bib No']] = df[['Place' ,'Age', 'Bib No']].astype(int)\<close>.
  On a column of texts \<open>astype(int)\<close> has numpy store each cell into a 64-bit integer,
  which converts the cell with Python 2's \<open>long\<close>. On a text, \<open>long\<close> skips white
  space, reads an optional sign, skips white space again, reads decimal digits (at least
  one), accepts one trailing \<open>L\<close> or \<open>l\<close>, skips white space, and raises ValueError
  unless it has then reached the end of the text. A value outside the 64-bit range raises
  OverflowError; a missing value raises ValueError.
\<close>

definition is_space :: "char \<Rightarrow> bool" where
  "is_space c = ((of_char c :: nat) \<in> set [9, 10, 11, 12, 13, 28, 29, 30, 31, 32, 133, 160])"

definition read_sign :: "string \<Rightarrow> bool \<times> string" where
  "read_sign t =
     (case t of
        c # rest \<Rightarrow>
          if c = CHR ''+'' then (False, rest)
          else if c = CHR ''-'' then (True, rest)
          else (False, t)
      | [] \<Rightarrow> (False, t))"

definition read_suffix :: "string \<Rightarrow> string" where
  "read_suffix t =
     (case t of
        c # rest \<Rightarrow> if c = CHR ''L'' \<or> c = CHR ''l'' then rest else t
      | [] \<Rightarrow> t)"

definition py_long :: "string \<Rightarrow> error + int" where
  "py_long s =
     (let (negative, t2) = read_sign (dropWhile is_space s);
          t3 = dropWhile is_space t2;
          ds = takeWhile is_digit t3;
          t5 = read_suffix (dropWhile is_digit t3)
      in if ds = [] \<or> dropWhile is_space t5 \<noteq> [] then Inl ValueError
         else Inr (if negative then - int (decimal ds) else int (decimal ds)))"

text \<open>
  The three columns hold cell texts whenever this is reached in the notebook; the other
  cases of a present cell are what the conversion does on a value of that type.
\<close>

definition astype_int :: "val option \<Rightarrow> error + val" where
  "astype_int c =
     (case c of
        None \<Rightarrow> Inl ValueError
      | Some (StrV s) \<Rightarrow>
          (case py_long s of
             Inl e \<Rightarrow> Inl e
           | Inr n \<Rightarrow> if - (2 ^ 63) \<le> n \<and> n < 2 ^ 63 then Inr (IntV n) else Inl OverflowError)
      | Some (IntV n) \<Rightarrow> Inr (IntV n)
      | Some (FloatV q) \<Rightarrow> Inr (IntV (if 0 \<le> q then \<lfloor>q\<rfloor> else \<lceil>q\<rceil>))
      | Some (TimedeltaV d) \<Rightarrow> Inl TypeError)"

definition astype_column :: "string \<Rightarrow> Record list \<Rightarrow> error + val list" where
  "astype_column label rs = collect (\<lambda>r. astype_int (map_of r label)) rs"

definition coerce_int_columns :: "frame \<Rightarrow> error + frame" where
  "coerce_int_columns df =
     (if \<not> set [''Place'', ''Age'', ''Bib No''] \<subseteq> set (columns df) then Inl KeyError
      else case astype_column ''Place'' (rows df) of
        Inl e \<Rightarrow> Inl e
      | Inr places \<Rightarrow>
      (case astype_column ''Age'' (rows df) of
        Inl e \<Rightarrow> Inl e
      | Inr ages \<Rightarrow>
      (case astype_column ''Bib No'' (rows df) of
        Inl e \<Rightarrow> Inl e
      | Inr bibs \<Rightarrow>
          Inr (setitem_values (setitem_values (setitem_values df ''Place'' places)
                 ''Age'' ages) ''Bib No'' bibs))))"

definition time_normalizer :: "frame \<Rightarrow> error + frame" where
  "time_normalizer df =
     (case add_time df of
        Inl e \<Rightarrow> Inl e
      | Inr df1 \<Rightarrow>
          (case add_minutes df1 of
             Inl e \<Rightarrow> Inl e
           | Inr df2 \<Rightarrow> coerce_int_columns df2))"



section \<open>Sink: \<open>sort_values\<close>\<close>

text \<open>
  \<^verbatim>\<open>df = df.sort_values(by = 'Time').reset_index(drop=True)\<close>.
  pandas sorts a frame by one column by asking numpy for the permutation that sorts the
  column's values (\<open>argsort\<close>) and taking the rows in that order; missing values go last.
  The call names no algorithm, and numpy's code is not part of the notebook, so the
  \<open>argsort\<close> it runs is a parameter. Durations compare by their length.
\<close>

definition total_microseconds :: "timedelta \<Rightarrow> int" where
  "total_microseconds d = (days d * 86400 + seconds d) * 1000000 + microseconds d"

definition time_key :: "Record \<Rightarrow> int option" where
  "time_key r =
     (case map_of r ''Time'' of
        Some (TimedeltaV d) \<Rightarrow> Some (total_microseconds d)
      | _ \<Rightarrow> None)"

definition nargsort :: "(int list \<Rightarrow> nat list) \<Rightarrow> int option list \<Rightarrow> nat list" where
  "nargsort argsort keys =
     (let idx = [0..<length keys];
          non_nan_idx = [i \<leftarrow> idx. keys ! i \<noteq> None];
          nan_idx = [i \<leftarrow> idx. keys ! i = None]
      in map (\<lambda>j. non_nan_idx ! j) (argsort (map (\<lambda>i. the (keys ! i)) non_nan_idx)) @ nan_idx)"

definition sort_values :: "(int list \<Rightarrow> nat list) \<Rightarrow> frame \<Rightarrow> error + frame" where
  "sort_values argsort df =
     (if ''Time'' \<notin> set (columns df) then Inl KeyError
      else Inr (df\<lparr>rows := map (\<lambda>i. rows df ! i) (nargsort argsort (map time_key (rows df)))\<rparr>))"

text \<open>
  What every sorting algorithm of numpy guarantees of \<open>argsort\<close>: the result is a
  permutation of the positions, and the keys read in that order ascend.
\<close>

definition argsort_contract :: "(int list \<Rightarrow> nat list) \<Rightarrow> bool" where
  "argsort_contract argsort =
     (\<forall>keys. mset (argsort keys) = mset [0..<length keys]
             \<and> sorted (map (\<lambda>i. keys ! i) (argsort keys)))"

text \<open>
  A function that meets the contract and keeps equal keys in their order, as
  \<open>kind='mergesort'\<close> does.
\<close>

definition stable_argsort :: "int list \<Rightarrow> nat list" where
  "stable_argsort keys = sort_key (\<lambda>i. keys ! i) [0..<length keys]"

text \<open>
  What the call runs: numpy's \<open>argsort\<close> with \<open>kind='quicksort'\<close>, the default, which is
  \<open>aquicksort\<close> of \<^verbatim>\<open>npysort/quicksort.c.src\<close>. It sorts the array \<open>tosort\<close> of
  positions, at first \<open>0, 1, 2, ...\<close>, by the keys at those positions. A range of 18 or
  more positions (\<^verbatim>\<open>pr - pl > 16\<close>) is partitioned around the median of its first, middle
  and last key, and the larger part waits on a stack; a shorter range is sorted by
  insertion. A range is kept here as its first position \<open>pl\<close> and the position \<open>ph\<close>
  after its last. The depth limit of later versions of numpy is not modelled; it takes
  more nested partitions than a range of a few dozen positions can have.
\<close>

definition swap :: "nat list \<Rightarrow> nat \<Rightarrow> nat \<Rightarrow> nat list" where
  "swap t i j = t[i := t ! j, j := t ! i]"

text \<open>
  \<^verbatim>\<open>
  for (;;) {
      do ++pi; while (LT(v[*pi], vp));
      do --pj; while (LT(vp, v[*pj]));
      if (pi >= pj) break;
      INTP_SWAP(*pi, *pj);
  }
  \<close>
  Each inner loop is a search: \<open>p_i'\<close> is the first position after \<open>p_i\<close> whose key is
  not below \<open>vp\<close>, \<open>p_j'\<close> the last position before \<open>p_j\<close> whose key is not above it.
\<close>

function scan :: "int list \<Rightarrow> int \<Rightarrow> nat list \<Rightarrow> nat \<Rightarrow> nat \<Rightarrow> nat list \<times> nat" where
  "scan v vp t p_i p_j =
     (let p_i' = p_i + 1 + length (takeWhile (\<lambda>i. v ! i < vp) (drop (p_i + 1) t));
          p_j' = p_j - 1 - length (takeWhile (\<lambda>i. vp < v ! i) (rev (take p_j t)))
      in if p_i' \<ge> p_j' then (t, p_i') else scan v vp (swap t p_i' p_j') p_i' p_j')"
  by pat_completeness auto
termination
  by (relation "measure (\<lambda>(v, vp, t, p_i, p_j). p_j - p_i)") auto

declare scan.simps [simp del]

text \<open>
  \<^verbatim>\<open>
  pm = pl + ((pr - pl) >> 1);
  if (LT(v[*pm], v[*pl])) INTP_SWAP(*pm, *pl);
  if (LT(v[*pr], v[*pm])) INTP_SWAP(*pr, *pm);
  if (LT(v[*pm], v[*pl])) INTP_SWAP(*pm, *pl);
  vp = v[*pm];
  pi = pl; pj = pr - 1;
  INTP_SWAP(*pm, *pj);
  /* the loop above */
  pk = pr - 1;
  INTP_SWAP(*pi, *pk);
  \<close>
\<close>

definition partition :: "int list \<Rightarrow> nat list \<Rightarrow> nat \<Rightarrow> nat \<Rightarrow> nat list \<times> nat" where
  "partition v t pl pr =
     (let pm = pl + (pr - pl) div 2;
          t = (if v ! (t ! pm) < v ! (t ! pl) then swap t pm pl else t);
          t = (if v ! (t ! pr) < v ! (t ! pm) then swap t pr pm else t);
          t = (if v ! (t ! pm) < v ! (t ! pl) then swap t pm pl else t);
          vp = v ! (t ! pm);
          t = swap t pm (pr - 1);
          (t, p_i) = scan v vp t pl (pr - 1)
      in (swap t p_i (pr - 1), p_i))"

text \<open>
  \<^verbatim>\<open>
  for (pi = pl + 1; pi <= pr; ++pi) {
      vi = *pi; vp = v[vi]; pj = pi; pk = pi - 1;
      while (pj > pl && LT(vp, v[*pk])) { *pj-- = *pk--; }
      *pj = vi;
  }
  \<close>
\<close>

fun shift :: "int list \<Rightarrow> int \<Rightarrow> nat list \<Rightarrow> nat \<Rightarrow> nat \<Rightarrow> nat list \<times> nat" where
  "shift v vp t pl p_j =
     (if pl < p_j \<and> vp < v ! (t ! (p_j - 1))
      then shift v vp (t[p_j := t ! (p_j - 1)]) pl (p_j - 1)
      else (t, p_j))"

declare shift.simps [simp del]

definition insertion_sort :: "int list \<Rightarrow> nat list \<Rightarrow> nat \<Rightarrow> nat \<Rightarrow> nat list" where
  "insertion_sort v t pl ph =
     fold (\<lambda>p_i t. let vi = t ! p_i; (t', p_j) = shift v (v ! vi) t pl p_i in t'[p_j := vi])
       [pl + 1..<ph] t"

text \<open>
  The outer loop: after a partition the smaller part is taken up and the larger pushed;
  after an insertion sort the next range is popped, and the loop ends when none is left.
  The loop is a partial function: \<open>None\<close> stands for a loop that does not end.
\<close>

partial_function (option) aquicksort_loop ::
  "int list \<Rightarrow> nat list \<Rightarrow> nat \<Rightarrow> nat \<Rightarrow> (nat \<times> nat) list \<Rightarrow> nat list option" where
  "aquicksort_loop v t pl ph stack =
     (if 17 < ph - pl
      then (let pr = ph - 1; (t', p_i) = partition v t pl pr
            in if p_i - pl < pr - p_i
               then aquicksort_loop v t' pl p_i ((p_i + 1, ph) # stack)
               else aquicksort_loop v t' (p_i + 1) ph ((pl, p_i) # stack))
      else (let t' = insertion_sort v t pl ph
            in case stack of
                 [] \<Rightarrow> Some t'
               | (l, h) # rest \<Rightarrow> aquicksort_loop v t' l h rest))"

declare aquicksort_loop.simps [code]

text \<open>
  \<open>argsort\<close> starts the loop on the positions \<open>0, 1, ..., n - 1\<close> and returns the sorted
  array of positions (no positions if the loop did not end).
\<close>

definition quicksort_argsort :: "int list \<Rightarrow> nat list" where
  "quicksort_argsort keys =
     (case aquicksort_loop keys [0..<length keys] 0 (length keys) [] of
        Some tosort \<Rightarrow> tosort
      | None \<Rightarrow> [])"

section \<open>The whole notebook\<close>

text \<open>
  The frame that \<open>to_pickle\<close> writes: the years are fetched, cleaned, tagged and merged,
  the merged frame is normalised, and the result is sorted.
\<close>

definition run :: "(string \<Rightarrow> error + row list) \<Rightarrow> (int list \<Rightarrow> nat list) \<Rightarrow> int list \<Rightarrow> error + frame" where
  "run fetch_rows argsort years =
     (case build fetch_rows years of
        Inl e \<Rightarrow> Inl e
      | Inr df \<Rightarrow>
          (case time_normalizer df of
             Inl e \<Rightarrow> Inl e
           | Inr df' \<Rightarrow> sort_values argsort df'))"

text \<open>A page of twenty runners who all finish in 16:56.\<close>

definition tied_row :: "nat \<Rightarrow> row" where
  "tied_row k = [str_nat k, ''Runner '' @ str_nat k, ''UNATTACHED'', str_nat (100 + k), ''30'',
                 ''M'', str_nat k @ '' 16-99'', ''16:56'', ''4:56/M'']"

definition tied_page :: "row list" where
  "tied_page = header_row # map tied_row [1..<21]"

text \<open>
  Two pages, served by URL: three runners in 2015 and one in 2016. Malcolm Richards (2015)
  and Trevor Halsted (2016) tie at 16:56.
\<close>

definition two_pages :: "string \<Rightarrow> error + row list" where
  "two_pages url =
     (if url = url_of 2015 then Inr [title_row, header_row, malcolm_row, alexandra_row, tamma_row]
      else if url = url_of 2016 then Inr [header_row, trevor_row]
      else Inl URLError)"

text \<open>The frame the notebook writes for the four sample rows as the page of 2015.\<close>

definition sample_normalized :: frame where
  "sample_normalized =
     \<lparr>columns = [''Place'', ''Name'', ''Team'', ''Bib No'', ''Age'', ''Gender'', ''Age Group'',
                 ''Total Time'', ''Pace'', ''Year'', ''Time'', ''Minutes''],
      rows =
        [[(''Place'', IntV 1), (''Name'', StrV ''Alexandra Sciocchetti''),
          (''Team'', StrV ''UNATTACHED''), (''Bib No'', IntV 189), (''Age'', IntV 20),
          (''Gender'', StrV ''F''), (''Age Group'', StrV ''1/48 13-39''),
          (''Total Time'', StrV ''20:20''), (''Pace'', StrV ''5:55/M''), (''Year'', IntV 2015),
          (''Time'', TimedeltaV \<lparr>days = 0, seconds = 1220, microseconds = 0\<rparr>),
          (''Minutes'', FloatV (float64 (1220 / 60)))],
         [(''Place'', IntV 2), (''Name'', StrV ''Tamma Carleton''),
          (''Team'', StrV ''Strawberry Canyon TC''), (''Bib No'', IntV 114), (''Age'', IntV 27),
          (''Gender'', StrV ''F''), (''Age Group'', StrV ''2/48 13-39''),
          (''Total Time'', StrV ''20:23''), (''Pace'', StrV ''5:56/M''), (''Year'', IntV 2015),
          (''Time'', TimedeltaV \<lparr>days = 0, seconds = 1223, microseconds = 0\<rparr>),
          (''Minutes'', FloatV (float64 (1223 / 60)))]]\<rparr>"

section \<open>Properties of the cleaner\<close>

lemma clean_loop_filter:
  "clean_loop header raw_data acc
     = acc @ [row \<leftarrow> raw_data. row \<noteq> header \<and> length row = 9]"
  by (induction raw_data arbitrary: acc) simp_all

lemma filter_first_split:
  "filter P xs = y # ys \<Longrightarrow>
     \<exists>pre post. xs = pre @ y # post \<and> (\<forall>x\<in>set pre. \<not> P x) \<and> P y"
proof (induction xs)
  case Nil
  then show ?case by simp
next
  case (Cons x xs)
  show ?case
  proof (cases "P x")
    case True
    with Cons.prems have "x = y" by simp
    with True have "x # xs = [] @ y # xs \<and> (\<forall>a\<in>set []. \<not> P a) \<and> P y" by simp
    then show ?thesis by blast
  next
    case False
    with Cons.prems have "filter P xs = y # ys" by simp
    from Cons.IH [OF this] obtain pre post
      where "xs = pre @ y # post" "\<forall>a\<in>set pre. \<not> P a" "P y" by blast
    with False have "x # xs = (x # pre) @ y # post \<and> (\<forall>a\<in>set (x # pre). \<not> P a) \<and> P y"
      by simp
    then show ?thesis by blast
  qed
qed

lemma sample_rows_lengths:
  "length title_row = 1" "length header_row = 9"
  "length alexandra_row = 9" "length tamma_row = 9"
  by (simp_all add: title_row_def header_row_def alexandra_row_def tamma_row_def)

lemma sample_rows_distinct:
  "alexandra_row \<noteq> header_row" "tamma_row \<noteq> header_row"
  by (simp_all add: header_row_def alexandra_row_def tamma_row_def)

lemma clean_rows_sample:
  "clean_rows sample_rows = Inr (header_row, [alexandra_row, tamma_row])"
  by (simp add: clean_rows_def find_header_def sample_rows_def sample_rows_lengths
      sample_rows_distinct)

text \<open>
  Claim C1. When some row has length 9, the cleaner succeeds; its header is the first row
  of length 9 (every row before it has another length); the cleaned rows are exactly the
  rows of length 9 that differ from the header, in their original order; so neither the
  header nor a row shorter than 9 is among them.
\<close>

theorem cleaner_keeps_exactly_data_rows:
  assumes "\<exists>row\<in>set raw_data. length row = 9"
  shows "\<exists>header pre post.
           clean_rows raw_data
             = Inr (header, [row \<leftarrow> raw_data. length row = 9 \<and> row \<noteq> header])
         \<and> raw_data = pre @ header # post
         \<and> (\<forall>r\<in>set pre. length r \<noteq> 9)
         \<and> length header = 9
         \<and> header \<notin> set [row \<leftarrow> raw_data. length row = 9 \<and> row \<noteq> header]
         \<and> (\<forall>r\<in>set [row \<leftarrow> raw_data. length row = 9 \<and> row \<noteq> header].
               \<not> length r < 9)"
proof -
  from assms have "[row \<leftarrow> raw_data. length row = 9] \<noteq> []"
    by (simp add: filter_empty_conv)
  then obtain header rest where f: "[row \<leftarrow> raw_data. length row = 9] = header # rest"
    by (cases "[row \<leftarrow> raw_data. length row = 9]") auto
  from filter_first_split [OF f] obtain pre post
    where split: "raw_data = pre @ header # post" "\<forall>r\<in>set pre. length r \<noteq> 9"
      "length header = 9" by blast
  have "[row \<leftarrow> raw_data. row \<noteq> header \<and> length row = 9]
          = [row \<leftarrow> raw_data. length row = 9 \<and> row \<noteq> header]"
    by (rule filter_cong) auto
  with f have "clean_rows raw_data
      = Inr (header, [row \<leftarrow> raw_data. length row = 9 \<and> row \<noteq> header])"
    by (simp add: clean_rows_def find_header_def clean_loop_filter)
  with split show ?thesis by auto
qed

theorem cleaner_keeps_exactly_data_rows_witness:
  "(\<exists>row\<in>set sample_rows. length row = 9)
   \<and> (\<exists>header pre post.
           clean_rows sample_rows
             = Inr (header, [row \<leftarrow> sample_rows. length row = 9 \<and> row \<noteq> header])
         \<and> sample_rows = pre @ header # post
         \<and> (\<forall>r\<in>set pre. length r \<noteq> 9)
         \<and> length header = 9
         \<and> header \<notin> set [row \<leftarrow> sample_rows. length row = 9 \<and> row \<noteq> header]
         \<and> (\<forall>r\<in>set [row \<leftarrow> sample_rows. length row = 9 \<and> row \<noteq> header].
               \<not> length r < 9))"
proof -
  have h: "\<exists>row\<in>set sample_rows. length row = 9"
    by (simp add: sample_rows_def sample_rows_lengths)
  from cleaner_keeps_exactly_data_rows [OF h] h show ?thesis by blast
qed

text \<open>
  Claim C5. When no row has length 9, the cleaner raises at the header lookup (Python's
  IndexError, which the specification calls HeaderNotFoundError) and returns no cleaned
  rows.
\<close>

theorem cleaner_fails_without_header:
  assumes "\<forall>row\<in>set raw_data. length row \<noteq> 9"
  shows "clean_rows raw_data = Inl IndexError"
proof -
  from assms have "[row \<leftarrow> raw_data. length row = 9] = []"
    by (simp add: filter_empty_conv)
  then show ?thesis by (simp add: clean_rows_def find_header_def)
qed

theorem cleaner_fails_without_header_witness:
  "length title_row \<noteq> 9 \<and> clean_rows [title_row] = Inl IndexError"
proof -
  have h: "\<forall>row\<in>set [title_row]. length row \<noteq> 9"
    by (simp add: sample_rows_lengths)
  from cleaner_fails_without_header [OF h] h show ?thesis by simp
qed

text \<open>
  Claim C10. Whatever the input, every cleaned row has length exactly 9; a row longer than
  9 is discarded like a shorter one.
\<close>

theorem cleaner_discards_longer_rows:
  assumes "clean_rows raw_data = Inr (header, cleaned_data)"
  shows "(\<forall>r\<in>set cleaned_data. length r = 9)
         \<and> (\<forall>r\<in>set raw_data. 9 < length r \<longrightarrow> r \<notin> set cleaned_data)"
proof -
  from assms have "cleaned_data = [row \<leftarrow> raw_data. row \<noteq> header \<and> length row = 9]"
    by (auto simp: clean_rows_def clean_loop_filter split: sum.splits)
  then show ?thesis by auto
qed

theorem cleaner_discards_longer_rows_witness:
  "clean_rows (sample_rows @ [alexandra_row @ [''extra'']])
     = Inr (header_row, [alexandra_row, tamma_row])
   \<and> length alexandra_row = 9 \<and> length tamma_row = 9
   \<and> 9 < length (alexandra_row @ [''extra''])
   \<and> alexandra_row @ [''extra''] \<notin> set [alexandra_row, tamma_row]"
proof -
  have h: "clean_rows (sample_rows @ [alexandra_row @ [''extra'']])
             = Inr (header_row, [alexandra_row, tamma_row])"
    by (simp add: clean_rows_def find_header_def sample_rows_def sample_rows_lengths
        sample_rows_distinct)
  from cleaner_discards_longer_rows [OF h] h show ?thesis
    by (simp add: sample_rows_lengths)
qed

section \<open>Properties of the time parser\<close>

lemma digit_val_le: "is_digit c \<Longrightarrow> digit_val c \<le> 9"
  by (auto simp: is_digit_def digit_val_def)

lemma low_digit_iff: "c \<in> set ''012345'' \<longleftrightarrow> is_digit c \<and> digit_val c \<le> 5"
  by (auto simp: is_digit_def digit_val_def)

lemma colon_not_digit: "\<not> is_digit CHR '':''"
  by (simp add: is_digit_def)

lemma decimal_simps:
  "decimal [a] = digit_val a" "decimal [a, b] = 10 * digit_val a + digit_val b"
  by (simp_all add: decimal_def)

lemma sixty_part_cases:
  "sixty_part ds \<longleftrightarrow>
     (\<exists>a. ds = [a] \<and> is_digit a) \<or> (\<exists>a b. ds = [a, b] \<and> a \<in> set ''012345'' \<and> is_digit b)"
proof
  assume h: "sixty_part ds"
  then consider "length ds = 1" | "length ds = 2" by (auto simp: sixty_part_def)
  then show "(\<exists>a. ds = [a] \<and> is_digit a) \<or> (\<exists>a b. ds = [a, b] \<and> a \<in> set ''012345'' \<and> is_digit b)"
  proof cases
    case 1
    then obtain a where "ds = [a]" by (cases ds) auto
    with h show ?thesis by (simp add: sixty_part_def)
  next
    case 2
    then obtain a b where ab: "ds = [a, b]" by (cases ds; cases "tl ds") auto
    with h have "is_digit a" "is_digit b" "10 * digit_val a + digit_val b \<le> 59"
      by (simp_all add: sixty_part_def decimal_simps)
    then have "a \<in> set ''012345''" unfolding low_digit_iff by simp
    with ab \<open>is_digit b\<close> show ?thesis by blast
  qed
next
  assume "(\<exists>a. ds = [a] \<and> is_digit a) \<or> (\<exists>a b. ds = [a, b] \<and> a \<in> set ''012345'' \<and> is_digit b)"
  then show "sixty_part ds"
  proof (elim disjE exE conjE)
    fix a assume "ds = [a]" "is_digit a"
    then show ?thesis using digit_val_le [of a] by (simp add: sixty_part_def decimal_simps)
  next
    fix a b assume h: "ds = [a, b]" "a \<in> set ''012345''" "is_digit b"
    from h(2) have "is_digit a" "digit_val a \<le> 5" unfolding low_digit_iff by simp_all
    with h(1,3) digit_val_le [of b] show ?thesis
      by (simp add: sixty_part_def decimal_simps)
  qed
qed

lemma match_M_sound:
  "(m, r) \<in> set (match_M s) \<Longrightarrow> \<exists>ms. s = ms @ r \<and> sixty_part ms \<and> m = decimal ms"
  unfolding match_M_def sixty_part_cases
  by (auto split: list.splits if_splits)

lemma match_S_sound:
  "(sec, r) \<in> set (match_S s) \<Longrightarrow> sec \<le> 59 \<Longrightarrow> \<exists>ss. s = ss @ r \<and> sixty_part ss \<and> sec = decimal ss"
  unfolding match_S_def sixty_part_cases
  by (auto split: list.splits if_splits simp: decimal_simps digit_val_def)

lemma match_colon_sound: "r2 \<in> set (match_colon r1) \<Longrightarrow> r1 = CHR '':'' # r2"
  by (auto simp: match_colon_def split: list.splits if_splits)

lemma match_M_complete:
  "sixty_part ms \<Longrightarrow> \<exists>alts. match_M (ms @ CHR '':'' # r) = (decimal ms, CHR '':'' # r) # alts"
  unfolding sixty_part_cases
  by (auto simp: match_M_def colon_not_digit low_digit_iff)

lemma match_S_complete:
  "sixty_part ss \<Longrightarrow> \<exists>alts. match_S ss = (decimal ss, []) # alts"
  unfolding sixty_part_cases
  by (auto simp: match_S_def low_digit_iff is_digit_def)

lemma regex_complete:
  assumes "sixty_part ms" "sixty_part ss"
  shows "format_regex_match (ms @ CHR '':'' # ss) = Some (decimal ms, decimal ss, [])"
proof -
  from match_M_complete [OF assms(1)] obtain alts
    where m: "match_M (ms @ CHR '':'' # ss) = (decimal ms, CHR '':'' # ss) # alts" by blast
  from match_S_complete [OF assms(2)] obtain alts2
    where s: "match_S ss = (decimal ss, []) # alts2" by blast
  show ?thesis by (simp add: format_regex_match_def m s match_colon_def)
qed

lemma regex_sound:
  assumes "format_regex_match s = Some (m, sec, rest)" "sec \<le> 59"
  shows "\<exists>ms ss. s = ms @ CHR '':'' # ss @ rest \<and> sixty_part ms \<and> sixty_part ss
           \<and> m = decimal ms \<and> sec = decimal ss"
proof -
  let ?L = "[(m, sec, r3). (m, r1) \<leftarrow> match_M s, r2 \<leftarrow> match_colon r1, (sec, r3) \<leftarrow> match_S r2]"
  from assms(1) obtain more where "?L = (m, sec, rest) # more"
    by (auto simp: format_regex_match_def split: list.splits)
  then have "(m, sec, rest) \<in> set ?L" by (metis list.set_intros(1))
  then obtain r1 r2 where "(m, r1) \<in> set (match_M s)" "r2 \<in> set (match_colon r1)"
    "(sec, rest) \<in> set (match_S r2)" by auto
  with assms(2) show ?thesis
    using match_M_sound match_colon_sound match_S_sound by (metis append_assoc append_Cons)
qed


lemma convert_only_ValueError: "convert_date_string_to_datetime s = Inl e \<Longrightarrow> e = ValueError"
  by (auto simp: convert_date_string_to_datetime_def strptime_def split: option.splits if_splits sum.splits)

lemma convert_accepts:
  assumes "sixty_part ms" "sixty_part ss"
  shows "convert_date_string_to_datetime (ms @ CHR '':'' # ss) = Inr (timedelta_of (decimal ms) (decimal ss))"
  using assms(2) by (simp add: convert_date_string_to_datetime_def strptime_def regex_complete [OF assms] sixty_part_def)

lemma convert_Inr_format:
  assumes "convert_date_string_to_datetime s = Inr d"
  shows "\<exists>ms ss. s = ms @ CHR '':'' # ss \<and> sixty_part ms \<and> sixty_part ss \<and> d = timedelta_of (decimal ms) (decimal ss)"
proof -
  from assms obtain m sec where r: "format_regex_match s = Some (m, sec, [])" "sec \<le> 59"
    "d = timedelta_of m sec"
    by (auto simp: convert_date_string_to_datetime_def strptime_def split: option.splits if_splits sum.splits)
  from regex_sound [OF r(1,2)] r(3) show ?thesis by auto
qed

lemma convert_1651: "convert_date_string_to_datetime ''16:51'' = Inr (timedelta_of 16 51)"
  by (simp add: convert_date_string_to_datetime_def strptime_def format_regex_match_def
      match_M_def match_S_def match_colon_def is_digit_def decimal_def digit_val_def)

lemma convert_2020: "convert_date_string_to_datetime ''20:20'' = Inr (timedelta_of 20 20)"
  by (simp add: convert_date_string_to_datetime_def strptime_def format_regex_match_def
      match_M_def match_S_def match_colon_def is_digit_def decimal_def digit_val_def)

text \<open>
  Claim C2, as the code has it. The parser accepts exactly the strings made of a minute
  part of one or two digits with value at most 59, a colon, and a seconds part of one or
  two digits with value at most 59, and returns the duration of those minutes and seconds;
  on every other string it raises ValueError (the specification's TimeParseError).
\<close>

theorem time_parser_accepts_exactly_sixty_parts:
  "(convert_date_string_to_datetime s = Inr d
      \<longleftrightarrow> (\<exists>ms ss. s = ms @ CHR '':'' # ss \<and> sixty_part ms \<and> sixty_part ss
              \<and> d = timedelta_of (decimal ms) (decimal ss)))
   \<and> ((\<nexists>d'. convert_date_string_to_datetime s = Inr d')
        \<longrightarrow> convert_date_string_to_datetime s = Inl ValueError)"
proof (intro conjI iffI impI)
  assume "convert_date_string_to_datetime s = Inr d"
  then show "\<exists>ms ss. s = ms @ CHR '':'' # ss \<and> sixty_part ms \<and> sixty_part ss
              \<and> d = timedelta_of (decimal ms) (decimal ss)"
    by (rule convert_Inr_format)
next
  assume "\<exists>ms ss. s = ms @ CHR '':'' # ss \<and> sixty_part ms \<and> sixty_part ss
              \<and> d = timedelta_of (decimal ms) (decimal ss)"
  then show "convert_date_string_to_datetime s = Inr d"
    using convert_accepts by blast
next
  assume no: "\<nexists>d'. convert_date_string_to_datetime s = Inr d'"
  show "convert_date_string_to_datetime s = Inl ValueError"
  proof (cases "convert_date_string_to_datetime s")
    case (Inl e)
    with convert_only_ValueError [of s e] show ?thesis by simp
  next
    case (Inr d')
    with no show ?thesis by blast
  qed
qed

theorem time_parser_accepts_exactly_sixty_parts_witness:
  "convert_date_string_to_datetime ''16:51'' = Inr (timedelta_of 16 51)
   \<and> convert_date_string_to_datetime ''104:32'' = Inl ValueError"
proof -
  have p: "sixty_part ''16''" "sixty_part ''51''" "decimal ''16'' = 16" "decimal ''51'' = 51"
    by (simp_all add: sixty_part_def is_digit_def decimal_def digit_val_def)
  then have "\<exists>ms ss. ''16:51'' = ms @ CHR '':'' # ss \<and> sixty_part ms \<and> sixty_part ss
              \<and> timedelta_of 16 51 = timedelta_of (decimal ms) (decimal ss)"
    by (intro exI [of _ "''16''"] exI [of _ "''51''"]) simp
  with time_parser_accepts_exactly_sixty_parts [of "''16:51''" "timedelta_of 16 51"]
  have a: "convert_date_string_to_datetime ''16:51'' = Inr (timedelta_of 16 51)" by blast
  have "\<nexists>ms ss. ''104:32'' = ms @ CHR '':'' # ss \<and> sixty_part ms \<and> sixty_part ss"
    by (auto simp: sixty_part_cases)
  with time_parser_accepts_exactly_sixty_parts [of "''104:32''"]
  have "convert_date_string_to_datetime ''104:32'' = Inl ValueError" by blast
  with a show ?thesis by simp
qed

text \<open>
  The claim as the specification words it fails: the three-digit minute part of
  \<open>104:32\<close> is rejected, and the one-digit seconds part of \<open>16:5\<close> is accepted.
\<close>

theorem time_parser_three_digit_minutes_counterexample:
  "convert_date_string_to_datetime ''104:32'' = Inl ValueError
   \<and> convert_date_string_to_datetime ''16:5'' = Inr (timedelta_of 16 5)"
  by (simp add: convert_date_string_to_datetime_def strptime_def format_regex_match_def
      match_M_def match_S_def match_colon_def is_digit_def decimal_def digit_val_def)


section \<open>Properties of the per-year loop\<close>

lemma map_of_set_col_same: "map_of (set_col l v r) l = Some v"
proof (cases "l \<in> fst ` set r")
  case True
  then have "map_of (map (\<lambda>(k, x). if k = l then (k, v) else (k, x)) r) l = Some v"
    by (induction r) (auto split: prod.splits)
  with True show ?thesis by (simp add: set_col_def)
next
  case False
  then have "map_of r l = None" by (simp add: map_of_eq_None_iff)
  with False show ?thesis by (simp add: set_col_def map_add_def)
qed

lemma map_of_set_col_other: "l' \<noteq> l \<Longrightarrow> map_of (set_col l v r) l' = map_of r l'"
proof (cases "l \<in> fst ` set r")
  case True
  assume ne: "l' \<noteq> l"
  then have "map_of (map (\<lambda>(k, x). if k = l then (k, v) else (k, x)) r) l' = map_of r l'"
    by (induction r) (auto split: prod.splits)
  with True show ?thesis by (simp add: set_col_def)
next
  case False
  assume "l' \<noteq> l"
  with False show ?thesis by (auto simp: set_col_def map_add_def split: option.splits)
qed

lemma rows_append_frame: "rows (append_frame a b) = rows a @ rows b"
  by (simp add: append_frame_def)

lemma rows_setitem: "rows (setitem d l v) = map (set_col l v) (rows d)"
  by (simp add: setitem_def)

lemma build_loop_rows:
  "build_loop f yus df0 = Inr df \<Longrightarrow>
     \<exists>ds. list_all2 (\<lambda>(y, u) d. parse_results_table f u = Inr d) yus ds
        \<and> rows df = rows df0
            @ concat (map (\<lambda>((y, u), d). map (set_col ''Year'' (IntV y)) (rows d)) (zip yus ds))"
proof (induction yus arbitrary: df0)
  case Nil
  then show ?case by simp
next
  case (Cons yu yus)
  obtain y u where yu: "yu = (y, u)" by (cases yu)
  from Cons.prems yu obtain d where d: "parse_results_table f u = Inr d"
    and rest: "build_loop f yus (append_frame df0 (setitem d ''Year'' (IntV y))) = Inr df"
    by (auto split: sum.splits)
  from Cons.IH [OF rest] obtain ds
    where ds: "list_all2 (\<lambda>(y, u) d. parse_results_table f u = Inr d) yus ds"
      "rows df = rows (append_frame df0 (setitem d ''Year'' (IntV y)))
            @ concat (map (\<lambda>((y, u), d). map (set_col ''Year'' (IntV y)) (rows d)) (zip yus ds))"
    by blast
  from d ds yu have "list_all2 (\<lambda>(y, u) d. parse_results_table f u = Inr d) (yu # yus) (d # ds)
     \<and> rows df = rows df0
            @ concat (map (\<lambda>((y, u), d). map (set_col ''Year'' (IntV y)) (rows d)) (zip (yu # yus) (d # ds)))"
    by (simp add: rows_append_frame rows_setitem)
  then show ?case by blast
qed

lemma build_loop_total:
  "\<forall>(y, u)\<in>set yus. \<exists>d. parse_results_table f u = Inr d \<Longrightarrow> \<exists>df. build_loop f yus df0 = Inr df"
proof (induction yus arbitrary: df0)
  case Nil
  then show ?case by simp
next
  case (Cons yu yus)
  obtain y u where yu: "yu = (y, u)" by (cases yu)
  with Cons.prems obtain d where d: "parse_results_table f u = Inr d" by auto
  from Cons.prems have "\<forall>(y, u)\<in>set yus. \<exists>d. parse_results_table f u = Inr d" by simp
  from Cons.IH [OF this, of "append_frame df0 (setitem d ''Year'' (IntV y))"] d yu
  show ?case by simp
qed

lemma zip_years_urls: "zip years (map url_of years) = map (\<lambda>y. (y, url_of y)) years"
  by (induction years) simp_all

text \<open>
  Claim C7. When the per-year loop succeeds, every year's page was parsed, the rows of the
  merged frame are the rows of the per-year frames in the order of the configured years,
  each already carrying the integer Year of its page when it is appended; and the loop
  succeeds whenever every page parses.
\<close>

theorem merged_dataset_is_concatenation:
  "(build fetch_rows years = Inr df \<longrightarrow>
      (\<exists>ds. list_all2 (\<lambda>y d. parse_results_table fetch_rows (url_of y) = Inr d) years ds
          \<and> rows df = concat (map (\<lambda>(y, d). map (set_col ''Year'' (IntV y)) (rows d)) (zip years ds))
          \<and> (\<forall>(y, d)\<in>set (zip years ds).
               \<forall>r\<in>set (map (set_col ''Year'' (IntV y)) (rows d)). map_of r ''Year'' = Some (IntV y))))
   \<and> ((\<forall>y\<in>set years. \<exists>d. parse_results_table fetch_rows (url_of y) = Inr d)
        \<longrightarrow> (\<exists>df'. build fetch_rows years = Inr df'))"
proof (intro conjI impI)
  assume b: "build fetch_rows years = Inr df"
  let ?yus = "map (\<lambda>y. (y, url_of y)) years"
  from b have "build_loop fetch_rows ?yus empty_frame = Inr df"
    by (simp add: build_def zip_years_urls)
  from build_loop_rows [OF this] obtain ds
    where l: "list_all2 (\<lambda>(y, u) d. parse_results_table fetch_rows u = Inr d) ?yus ds"
      and r: "rows df = rows empty_frame
            @ concat (map (\<lambda>((y, u), d). map (set_col ''Year'' (IntV y)) (rows d)) (zip ?yus ds))"
    by blast
  from l have l': "list_all2 (\<lambda>y d. parse_results_table fetch_rows (url_of y) = Inr d) years ds"
    by (simp add: list_all2_map1)
  have "zip ?yus ds = map (\<lambda>(y, d). ((y, url_of y), d)) (zip years ds)"
    by (simp add: zip_map1)
  with r have r': "rows df = concat (map (\<lambda>(y, d). map (set_col ''Year'' (IntV y)) (rows d)) (zip years ds))"
    by (simp add: empty_frame_def case_prod_unfold comp_def)
  have "\<forall>(y, d)\<in>set (zip years ds).
               \<forall>r\<in>set (map (set_col ''Year'' (IntV y)) (rows d)). map_of r ''Year'' = Some (IntV y)"
    by (auto simp: map_of_set_col_same)
  with l' r' show "\<exists>ds. list_all2 (\<lambda>y d. parse_results_table fetch_rows (url_of y) = Inr d) years ds
          \<and> rows df = concat (map (\<lambda>(y, d). map (set_col ''Year'' (IntV y)) (rows d)) (zip years ds))
          \<and> (\<forall>(y, d)\<in>set (zip years ds).
               \<forall>r\<in>set (map (set_col ''Year'' (IntV y)) (rows d)). map_of r ''Year'' = Some (IntV y))"
    by blast
next
  assume "\<forall>y\<in>set years. \<exists>d. parse_results_table fetch_rows (url_of y) = Inr d"
  then have "\<forall>(y, u)\<in>set (map (\<lambda>y. (y, url_of y)) years). \<exists>d. parse_results_table fetch_rows u = Inr d"
    by auto
  from build_loop_total [OF this] show "\<exists>df'. build fetch_rows years = Inr df'"
    by (simp add: build_def zip_years_urls)
qed


lemma two_pages_parsed:
  "parse_results_table two_pages (url_of 2015)
     = Inr (DataFrame [malcolm_row, alexandra_row, tamma_row] header_row)"
  "parse_results_table two_pages (url_of 2016) = Inr (DataFrame [trevor_row] header_row)"
  by code_simp+

theorem merged_dataset_is_concatenation_witness:
  "(\<exists>df. build two_pages [2015, 2016] = Inr df
        \<and> rows df
            = map (set_col ''Year'' (IntV 2015))
                (rows (DataFrame [malcolm_row, alexandra_row, tamma_row] header_row))
              @ map (set_col ''Year'' (IntV 2016)) (rows (DataFrame [trevor_row] header_row)))
   \<and> (\<exists>df. build two_pages [2016, 2015] = Inr df
        \<and> rows df
            = map (set_col ''Year'' (IntV 2016)) (rows (DataFrame [trevor_row] header_row))
              @ map (set_col ''Year'' (IntV 2015))
                  (rows (DataFrame [malcolm_row, alexandra_row, tamma_row] header_row)))"
proof -
  let ?d15 = "DataFrame [malcolm_row, alexandra_row, tamma_row] header_row"
  let ?d16 = "DataFrame [trevor_row] header_row"
  have all: "\<forall>y\<in>set ys. \<exists>d. parse_results_table two_pages (url_of y) = Inr d"
    if "set ys \<subseteq> {2015, 2016}" for ys
    using that two_pages_parsed by auto
  have a: "\<exists>df. build two_pages [2015, 2016] = Inr df
        \<and> rows df = map (set_col ''Year'' (IntV 2015)) (rows ?d15)
                     @ map (set_col ''Year'' (IntV 2016)) (rows ?d16)"
  proof -
    from all [of "[2015, 2016]"]
    have "\<forall>y\<in>set [2015, 2016]. \<exists>d. parse_results_table two_pages (url_of y) = Inr d" by simp
    with merged_dataset_is_concatenation [of two_pages "[2015, 2016]" empty_frame]
    obtain df where b: "build two_pages [2015, 2016] = Inr df" by blast
    from merged_dataset_is_concatenation [of two_pages "[2015, 2016]" df] b obtain ds
      where ds: "list_all2 (\<lambda>y d. parse_results_table two_pages (url_of y) = Inr d) [2015, 2016] ds"
        "rows df = concat (map (\<lambda>(y, d). map (set_col ''Year'' (IntV y)) (rows d))
                     (zip [2015, 2016] ds))"
      by blast
    from ds(1) two_pages_parsed have "ds = [?d15, ?d16]"
      by (auto simp: list_all2_Cons1)
    with ds(2) b show ?thesis by simp
  qed
  have c: "\<exists>df. build two_pages [2016, 2015] = Inr df
        \<and> rows df = map (set_col ''Year'' (IntV 2016)) (rows ?d16)
                     @ map (set_col ''Year'' (IntV 2015)) (rows ?d15)"
  proof -
    from all [of "[2016, 2015]"]
    have "\<forall>y\<in>set [2016, 2015]. \<exists>d. parse_results_table two_pages (url_of y) = Inr d" by simp
    with merged_dataset_is_concatenation [of two_pages "[2016, 2015]" empty_frame]
    obtain df where b: "build two_pages [2016, 2015] = Inr df" by blast
    from merged_dataset_is_concatenation [of two_pages "[2016, 2015]" df] b obtain ds
      where ds: "list_all2 (\<lambda>y d. parse_results_table two_pages (url_of y) = Inr d) [2016, 2015] ds"
        "rows df = concat (map (\<lambda>(y, d). map (set_col ''Year'' (IntV y)) (rows d))
                     (zip [2016, 2015] ds))"
      by blast
    from ds(1) two_pages_parsed have "ds = [?d16, ?d15]"
      by (auto simp: list_all2_Cons1)
    with ds(2) b show ?thesis by simp
  qed
  from a c show ?thesis by blast
qed

section \<open>Properties of the time normalizer\<close>

lemma collect_list_all2: "collect f xs = Inr ys \<Longrightarrow> list_all2 (\<lambda>x y. f x = Inr y) xs ys"
  by (induction xs arbitrary: ys) (auto split: sum.splits)

lemma rows_setitem_values_nth:
  "length vs = length (rows df) \<Longrightarrow> i < length (rows df) \<Longrightarrow>
     rows (setitem_values df l vs) ! i = set_col l (vs ! i) (rows df ! i)"
  by (simp add: setitem_values_def)

lemma length_rows_setitem_values:
  "length vs = length (rows df) \<Longrightarrow> length (rows (setitem_values df l vs)) = length (rows df)"
  by (simp add: setitem_values_def)

lemma columns_setitem_values: "columns (setitem_values df l vs) = add_label l (columns df)"
  by (simp add: setitem_values_def)

lemma add_time_rows:
  assumes "add_time df = Inr df1"
  shows "length (rows df1) = length (rows df)
         \<and> (\<forall>i<length (rows df). \<exists>s d.
               map_of (rows df ! i) ''Total Time'' = Some (StrV s)
               \<and> convert_date_string_to_datetime s = Inr d
               \<and> rows df1 ! i = set_col ''Time'' (TimedeltaV d) (rows df ! i))"
proof -
  from assms obtain ts
    where c: "collect (\<lambda>r. time_of_cell (map_of r ''Total Time'')) (rows df) = Inr ts"
      and df1: "df1 = setitem_values df ''Time'' ts"
    by (auto simp: add_time_def split: if_splits sum.splits)
  from collect_list_all2 [OF c]
  have l: "list_all2 (\<lambda>r t. time_of_cell (map_of r ''Total Time'') = Inr t) (rows df) ts" .
  then have len: "length ts = length (rows df)" by (simp add: list_all2_lengthD)
  have "\<exists>s d. map_of (rows df ! i) ''Total Time'' = Some (StrV s)
               \<and> convert_date_string_to_datetime s = Inr d
               \<and> rows df1 ! i = set_col ''Time'' (TimedeltaV d) (rows df ! i)"
    if i: "i < length (rows df)" for i
  proof -
    from l i have "time_of_cell (map_of (rows df ! i) ''Total Time'') = Inr (ts ! i)"
      by (simp add: list_all2_conv_all_nth)
    then obtain s d where "map_of (rows df ! i) ''Total Time'' = Some (StrV s)"
      "convert_date_string_to_datetime s = Inr d" "ts ! i = TimedeltaV d"
      by (auto simp: time_of_cell_def split: option.splits val.splits sum.splits)
    with rows_setitem_values_nth [OF len i, of "''Time''"] df1 show ?thesis by simp
  qed
  with len df1 show ?thesis by (simp add: length_rows_setitem_values)
qed

lemma add_minutes_rows:
  assumes "add_minutes df1 = Inr df2"
  shows "length (rows df2) = length (rows df1)
         \<and> (\<forall>i<length (rows df1). \<exists>d.
               map_of (rows df1 ! i) ''Time'' = Some (TimedeltaV d)
               \<and> rows df2 ! i
                   = set_col ''Minutes'' (FloatV (float64 (of_int (seconds d) / 60))) (rows df1 ! i))"
proof -
  from assms obtain ms
    where c: "collect (\<lambda>r. minutes_of_cell (map_of r ''Time'')) (rows df1) = Inr ms"
      and df2: "df2 = setitem_values df1 ''Minutes'' ms"
    by (auto simp: add_minutes_def split: if_splits sum.splits)
  from collect_list_all2 [OF c]
  have l: "list_all2 (\<lambda>r m. minutes_of_cell (map_of r ''Time'') = Inr m) (rows df1) ms" .
  then have len: "length ms = length (rows df1)" by (simp add: list_all2_lengthD)
  have "\<exists>d. map_of (rows df1 ! i) ''Time'' = Some (TimedeltaV d)
               \<and> rows df2 ! i
                   = set_col ''Minutes'' (FloatV (float64 (of_int (seconds d) / 60))) (rows df1 ! i)"
    if i: "i < length (rows df1)" for i
  proof -
    from l i have "minutes_of_cell (map_of (rows df1 ! i) ''Time'') = Inr (ms ! i)"
      by (simp add: list_all2_conv_all_nth)
    then obtain d where "map_of (rows df1 ! i) ''Time'' = Some (TimedeltaV d)"
      "ms ! i = FloatV (float64 (of_int (seconds d) / 60))"
      by (auto simp: minutes_of_cell_def split: option.splits val.splits)
    with rows_setitem_values_nth [OF len i, of "''Minutes''"] df2 show ?thesis by simp
  qed
  with len df2 show ?thesis by (simp add: length_rows_setitem_values)
qed

lemma coerce_rows:
  assumes "coerce_int_columns df2 = Inr df3"
  shows "length (rows df3) = length (rows df2)
         \<and> (\<forall>i<length (rows df2). \<exists>p a b.
               astype_int (map_of (rows df2 ! i) ''Place'') = Inr p
               \<and> astype_int (map_of (rows df2 ! i) ''Age'') = Inr a
               \<and> astype_int (map_of (rows df2 ! i) ''Bib No'') = Inr b
               \<and> rows df3 ! i
                   = set_col ''Bib No'' b (set_col ''Age'' a (set_col ''Place'' p (rows df2 ! i))))"
proof -
  from assms obtain ps as bs
    where c: "astype_column ''Place'' (rows df2) = Inr ps"
      "astype_column ''Age'' (rows df2) = Inr as"
      "astype_column ''Bib No'' (rows df2) = Inr bs"
      and df3: "df3 = setitem_values (setitem_values (setitem_values df2 ''Place'' ps)
                 ''Age'' as) ''Bib No'' bs"
    by (auto simp: coerce_int_columns_def split: if_splits sum.splits)
  from c have l: "list_all2 (\<lambda>r v. astype_int (map_of r ''Place'') = Inr v) (rows df2) ps"
    "list_all2 (\<lambda>r v. astype_int (map_of r ''Age'') = Inr v) (rows df2) as"
    "list_all2 (\<lambda>r v. astype_int (map_of r ''Bib No'') = Inr v) (rows df2) bs"
    unfolding astype_column_def by (auto dest: collect_list_all2)
  then have len: "length ps = length (rows df2)" "length as = length (rows df2)"
    "length bs = length (rows df2)" by (auto simp: list_all2_conv_all_nth)
  have "\<exists>p a b. astype_int (map_of (rows df2 ! i) ''Place'') = Inr p
               \<and> astype_int (map_of (rows df2 ! i) ''Age'') = Inr a
               \<and> astype_int (map_of (rows df2 ! i) ''Bib No'') = Inr b
               \<and> rows df3 ! i
                   = set_col ''Bib No'' b (set_col ''Age'' a (set_col ''Place'' p (rows df2 ! i)))"
    if i: "i < length (rows df2)" for i
  proof -
    from l i have "astype_int (map_of (rows df2 ! i) ''Place'') = Inr (ps ! i)"
      "astype_int (map_of (rows df2 ! i) ''Age'') = Inr (as ! i)"
      "astype_int (map_of (rows df2 ! i) ''Bib No'') = Inr (bs ! i)"
      by (simp_all add: list_all2_conv_all_nth)
    moreover from len i df3 have "rows df3 ! i
       = set_col ''Bib No'' (bs ! i) (set_col ''Age'' (as ! i) (set_col ''Place'' (ps ! i) (rows df2 ! i)))"
      by (simp add: setitem_values_def)
    ultimately show ?thesis by blast
  qed
  with len df3 show ?thesis by (simp add: setitem_values_def)
qed

lemma convert_bounds:
  assumes "convert_date_string_to_datetime s = Inr d"
  shows "days d = 0 \<and> 0 \<le> seconds d \<and> seconds d \<le> 3599 \<and> microseconds d = 0"
proof -
  from convert_Inr_format [OF assms] obtain ms ss
    where "sixty_part ms" "sixty_part ss" "d = timedelta_of (decimal ms) (decimal ss)" by blast
  then show ?thesis by (simp add: sixty_part_def timedelta_of_def)
qed

lemma normalizer_rows:
  assumes "time_normalizer df = Inr df'"
  shows "length (rows df') = length (rows df)
         \<and> (\<forall>i<length (rows df). \<exists>s d p a b.
               map_of (rows df ! i) ''Total Time'' = Some (StrV s)
               \<and> convert_date_string_to_datetime s = Inr d
               \<and> astype_int (map_of (rows df ! i) ''Place'') = Inr p
               \<and> astype_int (map_of (rows df ! i) ''Age'') = Inr a
               \<and> astype_int (map_of (rows df ! i) ''Bib No'') = Inr b
               \<and> rows df' ! i
                   = set_col ''Bib No'' b (set_col ''Age'' a (set_col ''Place'' p
                       (set_col ''Minutes'' (FloatV (float64 (of_int (seconds d) / 60)))
                          (set_col ''Time'' (TimedeltaV d) (rows df ! i))))))"
proof -
  from assms obtain df1 df2 where s: "add_time df = Inr df1" "add_minutes df1 = Inr df2"
    "coerce_int_columns df2 = Inr df'"
    by (auto simp: time_normalizer_def split: sum.splits)
  note t = add_time_rows [OF s(1)] and m = add_minutes_rows [OF s(2)] and c = coerce_rows [OF s(3)]
  have "\<exists>s d p a b.
               map_of (rows df ! i) ''Total Time'' = Some (StrV s)
               \<and> convert_date_string_to_datetime s = Inr d
               \<and> astype_int (map_of (rows df ! i) ''Place'') = Inr p
               \<and> astype_int (map_of (rows df ! i) ''Age'') = Inr a
               \<and> astype_int (map_of (rows df ! i) ''Bib No'') = Inr b
               \<and> rows df' ! i
                   = set_col ''Bib No'' b (set_col ''Age'' a (set_col ''Place'' p
                       (set_col ''Minutes'' (FloatV (float64 (of_int (seconds d) / 60)))
                          (set_col ''Time'' (TimedeltaV d) (rows df ! i)))))"
    if i: "i < length (rows df)" for i
  proof -
    from t i obtain s d where 1: "map_of (rows df ! i) ''Total Time'' = Some (StrV s)"
      "convert_date_string_to_datetime s = Inr d"
      "rows df1 ! i = set_col ''Time'' (TimedeltaV d) (rows df ! i)" by blast
    from t i have i1: "i < length (rows df1)" by simp
    with m obtain d' where 2: "map_of (rows df1 ! i) ''Time'' = Some (TimedeltaV d')"
      "rows df2 ! i = set_col ''Minutes'' (FloatV (float64 (of_int (seconds d') / 60))) (rows df1 ! i)"
      by blast
    from 1(3) 2(1) have dd: "d' = d" by (simp add: map_of_set_col_same)
    from m i1 have i2: "i < length (rows df2)" by simp
    with c obtain p a b where 3: "astype_int (map_of (rows df2 ! i) ''Place'') = Inr p"
      "astype_int (map_of (rows df2 ! i) ''Age'') = Inr a"
      "astype_int (map_of (rows df2 ! i) ''Bib No'') = Inr b"
      "rows df' ! i = set_col ''Bib No'' b (set_col ''Age'' a (set_col ''Place'' p (rows df2 ! i)))"
      by blast
    have same: "map_of (rows df2 ! i) l = map_of (rows df ! i) l"
      if "l \<noteq> ''Minutes''" "l \<noteq> ''Time''" for l
      using that by (simp add: 2(2) 1(3) map_of_set_col_other)
    from 3 same have "astype_int (map_of (rows df ! i) ''Place'') = Inr p"
      "astype_int (map_of (rows df ! i) ''Age'') = Inr a"
      "astype_int (map_of (rows df ! i) ''Bib No'') = Inr b" by simp_all
    with 1 2(2) 3(4) dd show ?thesis by auto
  qed
  with t m c show ?thesis by simp
qed

text \<open>
  Claim C3. In the normalised frame the Minutes of a Record is the float that the
  division of the total seconds of its parsed Total Time by 60 returns; for the Total Time
  16:51 it is the float that the literal 16.85 denotes.
\<close>

theorem minutes_is_seconds_over_sixty:
  assumes "time_normalizer df = Inr df'" "i < length (rows df)"
    "map_of (rows df ! i) ''Total Time'' = Some (StrV s)"
    "convert_date_string_to_datetime s = Inr d"
  shows "map_of (rows df' ! i) ''Minutes''
           = Some (FloatV (float64 (of_int (days d * 86400 + seconds d) / 60)))
         \<and> (s = ''16:51'' \<longrightarrow>
              map_of (rows df' ! i) ''Minutes'' = Some (FloatV (float64 (1685 / 100))))"
proof -
  from normalizer_rows [OF assms(1)] assms(2) obtain s' d' p a b
    where r: "map_of (rows df ! i) ''Total Time'' = Some (StrV s')"
      "convert_date_string_to_datetime s' = Inr d'"
      "rows df' ! i
         = set_col ''Bib No'' b (set_col ''Age'' a (set_col ''Place'' p
             (set_col ''Minutes'' (FloatV (float64 (of_int (seconds d') / 60)))
                (set_col ''Time'' (TimedeltaV d') (rows df ! i)))))"
    by blast
  from r(1,2) assms(3,4) have dd: "d' = d" by simp
  from convert_bounds [OF assms(4)] have z: "days d = 0" by simp
  from r(3) dd have m: "map_of (rows df' ! i) ''Minutes''
      = Some (FloatV (float64 (of_int (seconds d) / 60)))"
    by (simp add: map_of_set_col_other map_of_set_col_same)
  have "of_int (seconds d) / 60 = (1685 / 100 :: rat)" if "s = ''16:51''"
  proof -
    have "convert_date_string_to_datetime ''16:51'' = Inr (timedelta_of 16 51)"
      by (simp add: convert_date_string_to_datetime_def strptime_def format_regex_match_def
          match_M_def match_S_def match_colon_def is_digit_def decimal_def digit_val_def)
    with that assms(4) have "d = timedelta_of 16 51" by simp
    then show ?thesis by (simp add: timedelta_of_def)
  qed
  with m z show ?thesis by simp
qed

theorem minutes_is_seconds_over_sixty_witness:
  "\<exists>df'. time_normalizer (setitem (DataFrame [isaac_row] header_row) ''Year'' (IntV 2015)) = Inr df'
     \<and> map_of (rows df' ! 0) ''Minutes'' = Some (FloatV (float64 (1685 / 100)))"
proof -
  let ?df = "setitem (DataFrame [isaac_row] header_row) ''Year'' (IntV 2015)"
  have "case time_normalizer ?df of Inl e \<Rightarrow> False | Inr df' \<Rightarrow> True"
    by code_simp
  then obtain df' where n: "time_normalizer ?df = Inr df'" by (auto split: sum.splits)
  have i: "0 < length (rows ?df)" by (simp add: setitem_def DataFrame_def)
  have t: "map_of (rows ?df ! 0) ''Total Time'' = Some (StrV ''16:51'')"
    by (simp add: setitem_def DataFrame_def isaac_row_def header_row_def set_col_def)
  have c: "convert_date_string_to_datetime ''16:51'' = Inr (timedelta_of 16 51)"
    by (simp add: convert_date_string_to_datetime_def strptime_def format_regex_match_def
        match_M_def match_S_def match_colon_def is_digit_def decimal_def digit_val_def)
  from minutes_is_seconds_over_sixty [OF n i t c] n show ?thesis by blast
qed

section \<open>Properties of the integer columns\<close>


















lemma add_label_keeps: "c \<in> set cols \<Longrightarrow> c \<in> set (add_label l cols)"
  by (simp add: add_label_def)

lemma add_label_has: "l \<in> set (add_label l cols)"
  by (simp add: add_label_def)






section \<open>Properties of the sink\<close>

lemma stable_argsort_contract: "argsort_contract stable_argsort"
  by (simp add: argsort_contract_def stable_argsort_def)

lemma perm_indices_in_range:
  assumes "mset p = mset [0..<n]"
  shows "\<forall>j\<in>set p. j < n"
proof -
  from assms have "set p = set [0..<n]" by (metis set_mset_mset)
  then show ?thesis by simp
qed

lemma mset_take_rows:
  assumes "mset p = mset [0..<length xs]"
  shows "mset (map (\<lambda>i. xs ! i) p) = mset xs"
proof -
  have "mset (map (\<lambda>i. xs ! i) p) = image_mset (\<lambda>i. xs ! i) (mset p)" by simp
  also have "\<dots> = image_mset (\<lambda>i. xs ! i) (mset [0..<length xs])" by (simp only: assms)
  also have "\<dots> = mset (map (\<lambda>i. xs ! i) [0..<length xs])" by simp
  also have "\<dots> = mset xs" by (simp only: map_nth)
  finally show ?thesis .
qed

lemma nargsort_all_present:
  assumes "argsort_contract argsort" "\<forall>k\<in>set keys. k \<noteq> None"
  shows "nargsort argsort keys = argsort (map the keys)"
proof -
  let ?n = "length keys"
  from assms(2) have p: "\<forall>i\<in>set [0..<?n]. keys ! i \<noteq> None" by simp
  then have f1: "[i \<leftarrow> [0..<?n]. keys ! i \<noteq> None] = [0..<?n]" by (rule filter_True)
  from p have "\<forall>i\<in>set [0..<?n]. \<not> keys ! i = None" by simp
  then have f2: "[i \<leftarrow> [0..<?n]. keys ! i = None] = []" by (rule filter_False)
  note f = f1 f2
  have "map (\<lambda>i. the (keys ! i)) [0..<?n] = map the (map (\<lambda>i. keys ! i) [0..<?n])"
    by (simp only: map_map comp_def)
  then have k: "map (\<lambda>i. the (keys ! i)) [0..<?n] = map the keys"
    by (simp only: map_nth)
  from assms(1) have "mset (argsort (map the keys)) = mset [0..<?n]"
    by (simp add: argsort_contract_def)
  from perm_indices_in_range [OF this]
  have "map (\<lambda>j. [0..<?n] ! j) (argsort (map the keys)) = argsort (map the keys)"
    by (simp add: map_idI)
  with f k show ?thesis by (simp add: nargsort_def)
qed

lemma sorted_positions:
  assumes "sorted (map f xs)" "i < length xs" "j < length xs" "f (xs ! i) < f (xs ! j)"
  shows "i < (j::nat)"
proof (rule ccontr)
  assume "\<not> i < j"
  then have "j \<le> i" by simp
  with assms(1,2) have "map f xs ! j \<le> map f xs ! i" by (simp add: sorted_iff_nth_mono)
  with assms(2,3,4) show False by simp
qed

lemma normalizer_has_time_column:
  assumes "time_normalizer df = Inr df'"
  shows "''Time'' \<in> set (columns df')"
proof -
  from assms obtain df1 df2 where s: "add_time df = Inr df1" "add_minutes df1 = Inr df2"
    "coerce_int_columns df2 = Inr df'"
    by (auto simp: time_normalizer_def split: sum.splits)
  from s(1) have "''Time'' \<in> set (columns df1)"
    by (auto simp: add_time_def setitem_values_def add_label_def split: if_splits sum.splits)
  with s(2) have "''Time'' \<in> set (columns df2)"
    by (auto simp: add_minutes_def setitem_values_def add_label_def split: if_splits sum.splits)
  with s(3) show ?thesis
    by (auto simp: coerce_int_columns_def setitem_values_def add_label_def
        split: if_splits sum.splits)
qed

lemma normalizer_row_times:
  assumes "time_normalizer df = Inr df'" "r \<in> set (rows df')"
  shows "\<exists>s d. map_of r ''Total Time'' = Some (StrV s)
             \<and> convert_date_string_to_datetime s = Inr d
             \<and> time_key r = Some (total_microseconds d)"
proof -
  note n = normalizer_rows [OF assms(1)]
  from assms(2) n obtain i where i: "i < length (rows df)" "r = rows df' ! i"
    by (auto simp: in_set_conv_nth)
  with n obtain s d p a b m
    where r: "map_of (rows df ! i) ''Total Time'' = Some (StrV s)"
      "convert_date_string_to_datetime s = Inr d"
      "r = set_col ''Bib No'' b (set_col ''Age'' a (set_col ''Place'' p
             (set_col ''Minutes'' m (set_col ''Time'' (TimedeltaV d) (rows df ! i)))))"
    by blast
  from r(3) have "map_of r ''Time'' = Some (TimedeltaV d)"
    by (simp add: map_of_set_col_other map_of_set_col_same)
  then have "time_key r = Some (total_microseconds d)" by (simp add: time_key_def)
  moreover from r(1,3) have "map_of r ''Total Time'' = Some (StrV s)"
    by (simp add: map_of_set_col_other)
  ultimately show ?thesis using r(2) by blast
qed

text \<open>
  Claim C4, as the code has it. Whatever sorting algorithm numpy runs, the sink returns
  the Records of the normalised frame, each exactly as often as before, in ascending order
  of their durations; so a Record with Total Time 16:51 stands before every Record with
  Total Time 20:20. Nothing is promised about the order of Records with equal durations.
\<close>

theorem sink_sorts_by_duration:
  assumes "argsort_contract argsort" "time_normalizer df = Inr df1"
  shows "\<exists>df2. sort_values argsort df1 = Inr df2
           \<and> mset (rows df2) = mset (rows df1)
           \<and> (\<forall>r\<in>set (rows df2). time_key r \<noteq> None)
           \<and> sorted (map (\<lambda>r. the (time_key r)) (rows df2))
           \<and> (\<forall>i<length (rows df2). \<forall>j<length (rows df2).
                 map_of (rows df2 ! i) ''Total Time'' = Some (StrV ''16:51'')
                 \<and> map_of (rows df2 ! j) ''Total Time'' = Some (StrV ''20:20'')
                 \<longrightarrow> i < j)"
proof -
  let ?keys = "map time_key (rows df1)"
  let ?p = "argsort (map the ?keys)"
  let ?out = "map (\<lambda>i. rows df1 ! i) ?p"
  have present: "\<forall>r\<in>set (rows df1). time_key r \<noteq> None"
    using normalizer_row_times [OF assms(2)] by fastforce
  then have "\<forall>k\<in>set ?keys. k \<noteq> None" by simp
  from nargsort_all_present [OF assms(1) this]
  have idx: "nargsort argsort ?keys = ?p" .
  from normalizer_has_time_column [OF assms(2)] idx
  have sv: "sort_values argsort df1 = Inr (df1\<lparr>rows := ?out\<rparr>)"
    by (simp add: sort_values_def)
  from assms(1) have c: "mset ?p = mset [0..<length (rows df1)]"
    "sorted (map (\<lambda>i. map the ?keys ! i) ?p)"
    by (simp_all add: argsort_contract_def)
  from mset_take_rows [OF c(1)] have perm: "mset ?out = mset (rows df1)" .
  then have same_set: "set ?out = set (rows df1)" by (metis set_mset_mset)
  have eq: "map (\<lambda>r. the (time_key r)) ?out = map (\<lambda>i. map the ?keys ! i) ?p"
  proof -
    have "map (\<lambda>r. the (time_key r)) ?out = map (\<lambda>i. the (time_key (rows df1 ! i))) ?p"
      by (simp only: map_map comp_def)
    also have "\<dots> = map (\<lambda>i. map the ?keys ! i) ?p"
    proof (rule map_cong [OF refl])
      fix i assume "i \<in> set ?p"
      with perm_indices_in_range [OF c(1)] have "i < length (rows df1)" by blast
      then show "the (time_key (rows df1 ! i)) = map the ?keys ! i" by simp
    qed
    finally show ?thesis .
  qed
  from c(2) have srt: "sorted (map (\<lambda>r. the (time_key r)) ?out)" by (simp only: eq)
  have order: "i < j"
    if ij: "i < length ?out" "j < length ?out"
      and t: "map_of (?out ! i) ''Total Time'' = Some (StrV ''16:51'')"
        "map_of (?out ! j) ''Total Time'' = Some (StrV ''20:20'')" for i j
  proof -
    from ij same_set have mem: "?out ! i \<in> set (rows df1)" "?out ! j \<in> set (rows df1)"
      by (metis nth_mem)+
    from normalizer_row_times [OF assms(2) mem(1)] t(1) convert_1651
    have ki: "time_key (?out ! i) = Some (total_microseconds (timedelta_of 16 51))" by auto
    from normalizer_row_times [OF assms(2) mem(2)] t(2) convert_2020
    have kj: "time_key (?out ! j) = Some (total_microseconds (timedelta_of 20 20))" by auto
    from ki kj have "the (time_key (?out ! i)) < the (time_key (?out ! j))"
      by (simp add: total_microseconds_def timedelta_of_def)
    from sorted_positions [OF srt ij this] show ?thesis .
  qed
  from sv perm present same_set srt order show ?thesis by simp
qed

theorem sink_sorts_by_duration_witness:
  "argsort_contract stable_argsort
   \<and> (\<exists>df1 df2.
         time_normalizer (setitem (DataFrame [alexandra_row, isaac_row] header_row) ''Year'' (IntV 2015))
           = Inr df1
       \<and> sort_values stable_argsort df1 = Inr df2
       \<and> mset (rows df2) = mset (rows df1)
       \<and> sorted (map (\<lambda>r. the (time_key r)) (rows df2)))"
proof -
  let ?F = "setitem (DataFrame [alexandra_row, isaac_row] header_row) ''Year'' (IntV 2015)"
  have "case time_normalizer ?F of Inl e \<Rightarrow> False | Inr df' \<Rightarrow> True" by code_simp
  then obtain df1 where n: "time_normalizer ?F = Inr df1" by (auto split: sum.splits)
  from sink_sorts_by_duration [OF stable_argsort_contract n] n stable_argsort_contract
  show ?thesis by blast
qed

text \<open>
  The claim as the specification words it asks for a stable sort. The call names no
  algorithm, so numpy runs its quicksort, whose partition step exchanges positions with
  equal keys: the twenty runners of the tied page are merged in the order of their
  places, and do not leave the sink in that order.
\<close>

theorem sink_stability_counterexample:
  "(case build (\<lambda>url. Inr tied_page) [2015] of
      Inl e \<Rightarrow> []
    | Inr df \<Rightarrow> map (\<lambda>r. (map_of r ''Place'', map_of r ''Total Time'')) (rows df))
     = map (\<lambda>k. (Some (StrV (str_nat k)), Some (StrV ''16:56''))) [1..<21]
   \<and> (case run (\<lambda>url. Inr tied_page) quicksort_argsort [2015] of
         Inl e \<Rightarrow> []
       | Inr df \<Rightarrow> map (\<lambda>r. map_of r ''Place'') (rows df))
       \<noteq> map (\<lambda>k. Some (IntV (int k))) [1..<21]
   \<and> (case run (\<lambda>url. Inr tied_page) quicksort_argsort [2015] of
         Inl e \<Rightarrow> 0
       | Inr df \<Rightarrow> length (rows df)) = 20"
  by code_simp

text \<open>
  On a frame too short to be partitioned the same algorithm keeps ties in merge order, as
  in the frame the notebook prints, where Malcolm Richards (2015) stands before Trevor
  Halsted (2016).
\<close>

lemma notebook_tie_keeps_merge_order:
  "(case run two_pages quicksort_argsort [2015, 2016] of
      Inl e \<Rightarrow> []
    | Inr df \<Rightarrow> map (\<lambda>r. (map_of r ''Name'', map_of r ''Year'', map_of r ''Total Time'')) (rows df))
     = [(Some (StrV ''Malcolm Richards''), Some (IntV 2015), Some (StrV ''16:56'')),
        (Some (StrV ''Trevor Halsted''), Some (IntV 2016), Some (StrV ''16:56'')),
        (Some (StrV ''Alexandra Sciocchetti''), Some (IntV 2015), Some (StrV ''20:20'')),
        (Some (StrV ''Tamma Carleton''), Some (IntV 2015), Some (StrV ''20:23''))]"
  by code_simp


lemma argsort_two_ascending:
  assumes "argsort_contract argsort" "a < b"
  shows "argsort [a, b] = [0, 1]"
proof -
  let ?p = "argsort [a, b]"
  from assms(1) have m: "mset ?p = mset [0..<length [a, b]]"
    and s: "sorted (map (\<lambda>i. [a, b] ! i) ?p)"
    by (simp_all only: argsort_contract_def)
  from m have "size (mset ?p) = size (mset [0..<length [a, b]])" by (simp only:)
  then have len: "length ?p = 2" by simp
  from m have "set_mset (mset ?p) = set_mset (mset [0..<length [a, b]])" by (simp only:)
  then have st: "set ?p = {0, 1}" by auto
  from len obtain x y where xy: "?p = [x, y]"
    by (metis One_nat_def Suc_1 length_0_conv length_Suc_conv)
  with st have "(x = 0 \<and> y = 1) \<or> (x = 1 \<and> y = 0)" by (auto simp: doubleton_eq_iff)
  with s xy assms(2) show ?thesis by auto
qed

section \<open>The sample scenario\<close>

lemma sample_build:
  "build (\<lambda>url. Inr sample_rows) [2015]
     = Inr (append_frame empty_frame
              (setitem (DataFrame [alexandra_row, tamma_row] header_row) ''Year'' (IntV 2015)))"
  by (simp add: build_def parse_results_table_def clean_rows_sample)

lemma sample_normalize:
  "time_normalizer (append_frame empty_frame
              (setitem (DataFrame [alexandra_row, tamma_row] header_row) ''Year'' (IntV 2015)))
     = Inr sample_normalized"
  by code_simp

lemma sample_keys:
  "map time_key (rows sample_normalized) = [Some 1220000000, Some 1223000000]"
  by (simp add: sample_normalized_def time_key_def total_microseconds_def)

text \<open>
  Claim C6. On the four sample rows as the page of 2015 the notebook
  writes exactly two Records, Alexandra's first, both with Year 2015; their Minutes are
  the floats nearest to 1220/60 and 1223/60, which are 20.333333 and 20.383333 to the
  six decimal places that the notebook prints.
\<close>

theorem end_to_end_scenario:
  assumes "argsort_contract argsort"
  shows "run (\<lambda>url. Inr sample_rows) argsort [2015] = Inr sample_normalized
         \<and> \<bar>float64 (1220 / 60) - 20333333 / 1000000\<bar> < 1 / 2000000
         \<and> \<bar>float64 (1223 / 60) - 20383333 / 1000000\<bar> < 1 / 2000000"
proof -
  have "\<forall>k\<in>set (map time_key (rows sample_normalized)). k \<noteq> None"
    by (simp add: sample_keys)
  from nargsort_all_present [OF assms this]
  have "nargsort argsort (map time_key (rows sample_normalized))
          = argsort [1220000000, 1223000000]"
    by (simp add: sample_keys)
  also have "\<dots> = [0, 1]" by (rule argsort_two_ascending [OF assms]) simp
  finally have "sort_values argsort sample_normalized = Inr sample_normalized"
    by (simp add: sort_values_def) (simp add: sample_normalized_def)
  then have r: "run (\<lambda>url. Inr sample_rows) argsort [2015] = Inr sample_normalized"
    by (simp add: run_def sample_build sample_normalize)
  have "\<bar>float64 (1220 / 60) - 20333333 / 1000000\<bar> < 1 / 2000000" by code_simp
  moreover have "\<bar>float64 (1223 / 60) - 20383333 / 1000000\<bar> < 1 / 2000000" by code_simp
  ultimately show ?thesis using r by simp
qed

theorem end_to_end_scenario_witness:
  "argsort_contract stable_argsort
   \<and> run (\<lambda>url. Inr sample_rows) stable_argsort [2015] = Inr sample_normalized"
  using end_to_end_scenario [OF stable_argsort_contract] stable_argsort_contract by simp

end
